theory Spec2Isabelle
  imports Main "HOL-Library.AList" "HOL-Library.Sublist" "HOL-Library.Char_ord"
    "HOL-Library.List_Lexorder"
begin

section \<open>Strings\<close>

text \<open>
  Python strings are modelled as \<^typ>\<open>string\<close>. The helpers below are the string
  methods the sources call.
\<close>

definition startswith :: "string \<Rightarrow> string \<Rightarrow> bool" where
  \<comment> \<open>\<^verbatim>\<open>s.startswith(p)\<close>\<close>
  "startswith s p = prefix p s"

definition startswith_any :: "string \<Rightarrow> string list \<Rightarrow> bool" where
  \<comment> \<open>\<^verbatim>\<open>any(s.startswith(p) for p in ps)\<close>, and \<^verbatim>\<open>s.startswith((p1, p2, ...))\<close>\<close>
  "startswith_any s ps = list_ex (startswith s) ps"

definition endswith :: "string \<Rightarrow> string \<Rightarrow> bool" where
  "endswith s p = suffix p s"

definition has_dot :: "string \<Rightarrow> bool" where
  \<comment> \<open>\<^verbatim>\<open>"." in s\<close>\<close>
  "has_dot s = (CHR ''.'' \<in> set s)"

fun join :: "string \<Rightarrow> string list \<Rightarrow> string" where
  \<comment> \<open>\<^verbatim>\<open>sep.join(xs)\<close>\<close>
  "join sep [] = []"
| "join sep [x] = x"
| "join sep (x # y # ys) = x @ sep @ join sep (y # ys)"

fun replace_aux :: "string \<Rightarrow> string \<Rightarrow> nat \<Rightarrow> string \<Rightarrow> string" where
  "replace_aux old new k [] = []"
| "replace_aux old new (Suc k) (c # cs) = replace_aux old new k cs"
| "replace_aux old new 0 (c # cs) =
     (if prefix old (c # cs) then new @ replace_aux old new (length old - 1) cs
      else c # replace_aux old new 0 cs)"

definition replace :: "string \<Rightarrow> string \<Rightarrow> string \<Rightarrow> string" where
  \<comment> \<open>\<^verbatim>\<open>s.replace(old, new)\<close> for a non-empty \<open>old\<close>: the non-overlapping occurrences
      of \<open>old\<close>, found from the left, are replaced; the counter of \<open>replace_aux\<close> skips the
      rest of an occurrence just replaced.\<close>
  "replace s old new = replace_aux old new 0 s"

definition basename :: "string \<Rightarrow> string" where
  \<comment> \<open>\<^verbatim>\<open>os.path.basename\<close> (POSIX): what follows the last slash.\<close>
  "basename p = rev (takeWhile (\<lambda>c. c \<noteq> CHR ''/'') (rev p))"

definition dirname :: "string \<Rightarrow> string" where
  \<comment> \<open>\<^verbatim>\<open>os.path.dirname\<close> (POSIX): what precedes the last slash, without its trailing
      slashes unless it consists of slashes only.\<close>
  "dirname p =
     (let hd_part = rev (dropWhile (\<lambda>c. c \<noteq> CHR ''/'') (rev p));
          stripped = rev (dropWhile (\<lambda>c. c = CHR ''/'') (rev hd_part))
      in if stripped = [] then hd_part else stripped)"

definition lower_char :: "char \<Rightarrow> char" where
  "lower_char c =
     (let n = (of_char c :: nat) in if 65 \<le> n \<and> n \<le> 90 then char_of (n + 32) else c)"

definition lower :: "string \<Rightarrow> string" where
  \<comment> \<open>\<^verbatim>\<open>s.lower()\<close> on ASCII text: the letters A to Z are mapped to a to z.\<close>
  "lower s = map lower_char s"

fun digit_char :: "nat \<Rightarrow> char" where
  "digit_char n = char_of (48 + n mod 10)"

fun str_nat_aux :: "nat \<Rightarrow> nat \<Rightarrow> string \<Rightarrow> string" where
  "str_nat_aux 0 n acc = digit_char n # acc"
| "str_nat_aux (Suc fuel) n acc =
     (if n < 10 then digit_char n # acc
      else str_nat_aux fuel (n div 10) (digit_char n # acc))"

definition str_nat :: "nat \<Rightarrow> string" where
  \<comment> \<open>\<^verbatim>\<open>str(n)\<close> of a length: decimal digits. A number \<open>n\<close> has at most \<open>n + 1\<close> digits,
      so the bound on the recursion is never reached.\<close>
  "str_nat n = str_nat_aux n n []"

section \<open>The index\<close>

text \<open>
  The index is a Python dict from file path to a per-file dict with the keys
  \<^verbatim>\<open>classes\<close>, \<^verbatim>\<open>methods\<close>, \<^verbatim>\<open>dependencies\<close>, \<^verbatim>\<open>call_graph\<close> and \<^verbatim>\<open>package\<close>. A dict keeps
  its insertion order, so it is an association list; \<^const>\<open>AList.update\<close> overwrites
  the value of a key in place and appends a new key, as an assignment to \<^verbatim>\<open>d[k]\<close> does.
\<close>

record method_info =
  m_name :: string
  m_class :: string
  m_signature :: string
  m_return_type :: string

record call_info =
  caller_class :: string
  caller_method :: string
  callee_class :: string
  callee_method :: string
  sequence :: nat

record file_data =
  classes :: "string list"
  methods :: "method_info list"
  dependencies :: "string list"
  call_graph :: "call_info list"
  package :: string

type_synonym index = "(string \<times> file_data) list"

datatype level = WARNING | ERROR

text \<open>The log keeps the lines written at the levels WARNING and ERROR.\<close>

type_synonym log = "(level \<times> string) list"

datatype exn = JSONDecodeError string | FileNotFoundError string | OtherException string

fun str_exn :: "exn \<Rightarrow> string" where
  "str_exn (JSONDecodeError m) = m"
| "str_exn (FileNotFoundError m) = m"
| "str_exn (OtherException m) = m"

section \<open>parse\_java.py\<close>

text \<open>
  The parser (javalang) is a collaborator. Iterating a parse tree yields pairs of a
  path (the ancestors, outermost first) and a node; the model is the list of these
  pairs, with the node kinds and attributes that \<^verbatim>\<open>parse_java_file\<close> reads. For a
  method declaration the parameter types are the strings the source computes from
  each \<^verbatim>\<open>p.type\<close>, and the return type is \<^verbatim>\<open>str(node.return_type)\<close> when there is one.
\<close>

datatype node =
    PackageDeclaration string
  | ClassDeclaration string
  | MethodDeclaration string "string list" "string option"
  | Import string
  | MethodInvocation "string option" string
  | OtherNode

type_synonym tree = "(node list \<times> node) list"

definition new_file_data :: file_data where
  "new_file_data =
     \<lparr>classes = [], methods = [], dependencies = [], call_graph = [], package = []\<rparr>"

fun extract_package :: "tree \<Rightarrow> file_data \<Rightarrow> file_data" where
  \<comment> \<open>first loop: the first package declaration, then \<^verbatim>\<open>break\<close>\<close>
  "extract_package [] pd = pd"
| "extract_package ((path, PackageDeclaration n) # rest) pd = pd\<lparr>package := n\<rparr>"
| "extract_package (_ # rest) pd = extract_package rest pd"

fun parent_class_of :: "node list \<Rightarrow> string option" where
  \<comment> \<open>the first class declaration on the path\<close>
  "parent_class_of [] = None"
| "parent_class_of (ClassDeclaration n # ps) = Some n"
| "parent_class_of (_ # ps) = parent_class_of ps"

definition truthy :: "string option \<Rightarrow> bool" where
  \<comment> \<open>Python truth of a value that is \<^verbatim>\<open>None\<close> or a string\<close>
  "truthy v = (case v of None \<Rightarrow> False | Some s \<Rightarrow> s \<noteq> [])"

fun class_method_step :: "node list \<times> node \<Rightarrow> file_data \<Rightarrow> file_data" where
  "class_method_step (path, ClassDeclaration n) pd = pd\<lparr>classes := classes pd @ [n]\<rparr>"
| "class_method_step (path, MethodDeclaration n params rt) pd =
     (let parent_class = parent_class_of path in
      if truthy parent_class then
        pd\<lparr>methods := methods pd @
          [\<lparr>m_name = n, m_class = the parent_class,
            m_signature = n @ ''('' @ join '', '' params @ '')'',
            m_return_type = (case rt of None \<Rightarrow> ''void'' | Some r \<Rightarrow> r)\<rparr>]\<rparr>
      else pd)"
| "class_method_step (path, _) pd = pd"

definition extract_classes_methods :: "tree \<Rightarrow> file_data \<Rightarrow> file_data" where
  \<comment> \<open>second loop\<close>
  "extract_classes_methods t pd = fold class_method_step t pd"

fun caller_context ::
  "node list \<Rightarrow> string option \<Rightarrow> string option \<Rightarrow> string option \<times> string option" where
  \<comment> \<open>the loop over \<^verbatim>\<open>reversed(path)\<close>; the argument is the reversed path\<close>
  "caller_context [] cc cm = (cc, cm)"
| "caller_context (p # ps) cc cm =
     (let cc' = (case p of ClassDeclaration n \<Rightarrow> Some n | _ \<Rightarrow> cc);
          cm' = (case p of ClassDeclaration n \<Rightarrow> cm | MethodDeclaration n _ _ \<Rightarrow> Some n | _ \<Rightarrow> cm)
      in if truthy cc' \<and> truthy cm' then (cc', cm') else caller_context ps cc' cm')"

fun dependency_call_step :: "string \<Rightarrow> node list \<times> node \<Rightarrow> file_data \<Rightarrow> file_data" where
  "dependency_call_step file_path (path, Import full_import) pd =
     (if startswith full_import ''java.'' then pd
      else pd\<lparr>dependencies := dependencies pd @ [full_import]\<rparr>)"
| "dependency_call_step file_path (path, MethodInvocation qualifier member) pd =
     (let (cc, cm) = caller_context (rev path) None None;
          caller_class = (if truthy cc then the cc else replace (basename file_path) ''.java'' '''');
          caller_method = (if truthy cm then the cm else ''unknown'');
          callee_class = (if truthy qualifier then the qualifier else caller_class)
      in pd\<lparr>call_graph := call_graph pd @
           [\<lparr>caller_class = caller_class, caller_method = caller_method,
             callee_class = callee_class, callee_method = member,
             sequence = length (call_graph pd) + 1\<rparr>]\<rparr>)"
| "dependency_call_step file_path (path, _) pd = pd"

definition extract_dependencies_calls :: "string \<Rightarrow> tree \<Rightarrow> file_data \<Rightarrow> file_data" where
  \<comment> \<open>third loop\<close>
  "extract_dependencies_calls file_path t pd = fold (dependency_call_step file_path) t pd"

definition in_index :: "string \<Rightarrow> index \<Rightarrow> bool" where
  \<comment> \<open>\<^verbatim>\<open>file_path in index_data\<close>\<close>
  "in_index file_path index_data = (map_of index_data file_path \<noteq> None)"

definition parse_java_file ::
  "(string \<Rightarrow> exn + tree) \<Rightarrow> string \<Rightarrow> index \<Rightarrow> log \<times> index" where
  \<comment> \<open>The first argument stands for reading and parsing the file at a path: the
      exception raised in the \<^verbatim>\<open>try\<close> block, or the tree. The result is what was logged
      at level ERROR and the index after the call. The source mutates the entry of the
      path in place; here the entry is read (or created), updated and stored.\<close>
  "parse_java_file parse file_path index_data =
     (case parse file_path of
        Inl e \<Rightarrow> ([(ERROR, ''Error parsing '' @ file_path @ '': '' @ str_exn e)], index_data)
      | Inr t \<Rightarrow>
          (let index1 = (if \<not> in_index file_path index_data
                         then AList.update file_path new_file_data index_data
                         else index_data);
               parsed_data = the (map_of index1 file_path);
               parsed_data = extract_package t parsed_data;
               parsed_data = extract_classes_methods t parsed_data;
               parsed_data = extract_dependencies_calls file_path t parsed_data
           in ([], AList.update file_path parsed_data index1)))"

section \<open>config\_utils.py\<close>

text \<open>
  The file system is a map from paths to entries: a directory, or a file with its
  contents. \<^verbatim>\<open>json.dump\<close> and \<^verbatim>\<open>json.load\<close> belong to the standard library, not to this
  repository; the contents of a file are therefore kept as the JSON document they
  encode (here always an index), or as a text that is not JSON together with the
  message of the \<^verbatim>\<open>JSONDecodeError\<close> that \<^verbatim>\<open>json.load\<close> raises on this text. Directories are
  a flat name space: \<^verbatim>\<open>os.makedirs\<close> creates the directory it is given.
\<close>

datatype content = Document index | Malformed string string

datatype entry = Dir | File content

type_synonym fs = "string \<Rightarrow> entry option"

definition exists_path :: "fs \<Rightarrow> string \<Rightarrow> bool" where
  \<comment> \<open>\<^verbatim>\<open>os.path.exists\<close>\<close>
  "exists_path fs p = (fs p \<noteq> None)"

definition makedirs :: "fs \<Rightarrow> string \<Rightarrow> exn + fs" where
  \<comment> \<open>\<^verbatim>\<open>os.makedirs(d, exist_ok=True)\<close>: the empty path raises FileNotFoundError, an
      existing file of that name raises FileExistsError.\<close>
  "makedirs fs d =
     (if d = [] then Inl (FileNotFoundError ''No such file or directory'')
      else case fs d of
             None \<Rightarrow> Inr (fs(d \<mapsto> Dir))
           | Some Dir \<Rightarrow> Inr fs
           | Some (File _) \<Rightarrow> Inl (OtherException ''File exists''))"

definition open_write :: "fs \<Rightarrow> string \<Rightarrow> content \<Rightarrow> exn + fs" where
  \<comment> \<open>\<^verbatim>\<open>open(p, "w")\<close> and the write: a directory cannot be opened for writing.\<close>
  "open_write fs p c =
     (case fs p of
        Some Dir \<Rightarrow> Inl (OtherException ''Is a directory'')
      | _ \<Rightarrow> Inr (fs(p \<mapsto> File c)))"

definition open_read :: "fs \<Rightarrow> string \<Rightarrow> exn + content" where
  \<comment> \<open>\<^verbatim>\<open>open(p, "r")\<close> and the read\<close>
  "open_read fs p =
     (case fs p of
        None \<Rightarrow> Inl (FileNotFoundError ''No such file or directory'')
      | Some Dir \<Rightarrow> Inl (OtherException ''Is a directory'')
      | Some (File c) \<Rightarrow> Inr c)"

definition json_load :: "content \<Rightarrow> exn + index" where
  \<comment> \<open>the decoder's message, not the text of the file, is the message of the exception\<close>
  "json_load c =
     (case c of Document d \<Rightarrow> Inr d | Malformed t message \<Rightarrow> Inl (JSONDecodeError message))"

definition load_failed :: "string \<Rightarrow> exn \<Rightarrow> log" where
  \<comment> \<open>the three \<^verbatim>\<open>except\<close> clauses of \<^verbatim>\<open>load_from_file\<close> log the same line\<close>
  "load_failed file_path e =
     [(ERROR, ''Error loading file '' @ file_path @ '': '' @ str_exn e)]"

definition load_from_file :: "fs \<Rightarrow> string \<Rightarrow> log \<times> fs \<times> index" where
  \<comment> \<open>The result is the log, the file system after the call and the returned dict.
      Every exception is caught inside the function, which then returns \<^verbatim>\<open>{}\<close>.\<close>
  "load_from_file fs file_path =
     (if \<not> exists_path fs file_path then
        (let warning =
               [(WARNING, ''File '' @ file_path @ '' not found. Creating an empty index file.'')]
         in case makedirs fs (dirname file_path) of
              Inl e \<Rightarrow> (warning @ load_failed file_path e, fs, [])
            | Inr fs1 \<Rightarrow>
                (case open_write fs1 file_path (Document []) of
                   Inl e \<Rightarrow> (warning @ load_failed file_path e, fs1, [])
                 | Inr fs2 \<Rightarrow> (warning, fs2, [])))
      else
        (case open_read fs file_path of
           Inl e \<Rightarrow> (load_failed file_path e, fs, [])
         | Inr c \<Rightarrow>
             (case json_load c of
                Inl e \<Rightarrow> (load_failed file_path e, fs, [])
              | Inr d \<Rightarrow> ([], fs, d))))"

definition save_to_file :: "fs \<Rightarrow> string \<Rightarrow> index \<Rightarrow> exn + fs" where
  \<comment> \<open>nothing is caught here: an exception leaves the function\<close>
  "save_to_file fs file_path data =
     (case makedirs fs (dirname file_path) of
        Inl e \<Rightarrow> Inl e
      | Inr fs1 \<Rightarrow> open_write fs1 file_path (Document data))"

section \<open>impactanalysis.py\<close>

definition INDEX_DIR :: string where
  "INDEX_DIR = ''code_index''"

definition INDEX_JSON :: string where
  \<comment> \<open>\<^verbatim>\<open>os.path.join(INDEX_DIR, "index.json")\<close>\<close>
  "INDEX_JSON = INDEX_DIR @ ''/'' @ ''index.json''"

text \<open>
  The tasks of the thread pool work on distinct paths and each writes the entry of its
  own path only, so they are run one after the other, in the order of the list. What a
  task raises reaches \<^verbatim>\<open>future.result()\<close> and is appended to \<^verbatim>\<open>errors\<close>. The loop takes
  the task as an argument, so that this branch is part of the model.
\<close>

type_synonym task = "string \<Rightarrow> index \<Rightarrow> exn + (log \<times> index)"

fun run_tasks ::
  "task \<Rightarrow> string list \<Rightarrow> (string \<times> string) list \<times> log \<times> index
     \<Rightarrow> (string \<times> string) list \<times> log \<times> index" where
  "run_tasks task [] st = st"
| "run_tasks task (f # fs) (errors, lg, index_data) =
     (case task f index_data of
        Inl e \<Rightarrow> run_tasks task fs (errors @ [(f, str_exn e)], lg, index_data)
      | Inr (l, index_data') \<Rightarrow> run_tasks task fs (errors, lg @ l, index_data'))"

definition parse_java_task :: "(string \<Rightarrow> exn + tree) \<Rightarrow> task" where
  \<comment> \<open>\<^verbatim>\<open>parse_java_file\<close> as a task: it catches the exceptions of reading and parsing
      itself and raises nothing.\<close>
  "parse_java_task parse f index_data = Inr (parse_java_file parse f index_data)"

definition report_errors :: "(string \<times> string) list \<Rightarrow> log" where
  "report_errors errors =
     (if errors = [] then []
      else (ERROR, ''Errors occurred in '' @ str_nat (length errors) @ '' files:'')
           # map (\<lambda>(file, error). (ERROR, file @ '': '' @ error)) errors)"

record scan_result =
  scan_errors :: "(string \<times> string) list"
  scan_log :: log
  scan_index :: index
  scan_fs :: fs

definition scan_directory_incremental ::
  "(string \<Rightarrow> exn + tree) \<Rightarrow> bool \<Rightarrow> string list \<Rightarrow> string \<Rightarrow> fs \<Rightarrow> exn + scan_result" where
  \<comment> \<open>The second and third arguments are what \<^verbatim>\<open>os.path.exists(directory)\<close> and the walk
      over the directory give. \<open>Inl\<close> is an exception that leaves the function (only
      \<^verbatim>\<open>save_to_file\<close> can raise one).\<close>
  "scan_directory_incremental parse dir_exists java_files directory fs =
     (if \<not> dir_exists then
        Inr \<lparr>scan_errors = [],
             scan_log = [(ERROR, ''Directory '' @ directory @
                '' does not exist. Ensure the repository was cloned successfully.'')],
             scan_index = [], scan_fs = fs\<rparr>
      else
        (let (l0, fs1, index_data) = load_from_file fs INDEX_JSON in
         if java_files = [] then
           Inr \<lparr>scan_errors = [],
                scan_log = l0 @ [(WARNING, ''No Java files found in '' @ directory @
                   ''. Skipping indexing.'')],
                scan_index = index_data, scan_fs = fs1\<rparr>
         else
           (let (errors, l1, index_data') =
                  run_tasks (parse_java_task parse) java_files ([], [], index_data)
            in case save_to_file fs1 INDEX_JSON index_data' of
                 Inl e \<Rightarrow> Inl e
               | Inr fs2 \<Rightarrow>
                   Inr \<lparr>scan_errors = errors,
                        scan_log = l0 @ l1 @ report_errors errors,
                        scan_index = index_data', scan_fs = fs2\<rparr>)))"

section \<open>generate\_class\_diagram.py\<close>

text \<open>
  A Python set is a list without repetitions: \<open>set_add\<close> appends an element that is
  not there yet. The order in which Python iterates over a set is not specified; the
  list fixes one order.
\<close>

definition set_add :: "'a \<Rightarrow> 'a list \<Rightarrow> 'a list" where
  "set_add x xs = (if x \<in> set xs then xs else xs @ [x])"

record relationships =
  inheritance :: "(string \<times> string) list"
  composition :: "(string \<times> string) list"
  aggregation :: "(string \<times> string) list"
  association :: "(string \<times> string) list"

definition no_relationships :: relationships where
  "no_relationships = \<lparr>inheritance = [], composition = [], aggregation = [], association = []\<rparr>"

definition excluded_patterns :: "string list" where
  "excluded_patterns =
     [''java.'', ''javax.'', ''org.springframework'',
      ''junit'', ''org.junit'', ''org.assertj'', ''org.mockito'',
      ''org.slf4j'', ''lombok'', ''android.'', ''com.google.common'']"

definition qualify :: "string \<Rightarrow> string \<Rightarrow> string" where
  \<comment> \<open>a name without a dot gets the package of the file, when that is not empty\<close>
  "qualify package_name n =
     (if \<not> has_dot n \<and> package_name \<noteq> [] then package_name @ ''.'' @ n else n)"

definition full_class_name_of :: "string \<Rightarrow> string \<Rightarrow> string" where
  "full_class_name_of package_name class_name =
     (if package_name \<noteq> [] then package_name @ ''.'' @ class_name else class_name)"

text \<open>
  The index holds the names of the classes only. Where the source needs the parent
  class, the interfaces, the attributes, the type of an attribute and whether it is
  final, it has fixed placeholder values; they are the constants below. The bodies of
  the loops are functions of these values.
\<close>

definition parent_class_placeholder :: string where
  "parent_class_placeholder = []"

definition interfaces_placeholder :: "string list" where
  "interfaces_placeholder = []"

definition attributes_placeholder :: "string list" where
  "attributes_placeholder = []"

definition attr_type_placeholder :: string where
  "attr_type_placeholder = ''String''"

definition is_final_placeholder :: bool where
  "is_final_placeholder = False"

definition add_inheritance :: "string \<times> string \<Rightarrow> relationships \<Rightarrow> relationships" where
  "add_inheritance e r = r\<lparr>inheritance := set_add e (inheritance r)\<rparr>"

definition add_composition :: "string \<times> string \<Rightarrow> relationships \<Rightarrow> relationships" where
  "add_composition e r = r\<lparr>composition := set_add e (composition r)\<rparr>"

definition add_aggregation :: "string \<times> string \<Rightarrow> relationships \<Rightarrow> relationships" where
  "add_aggregation e r = r\<lparr>aggregation := set_add e (aggregation r)\<rparr>"

definition add_association :: "string \<times> string \<Rightarrow> relationships \<Rightarrow> relationships" where
  "add_association e r = r\<lparr>association := set_add e (association r)\<rparr>"

definition track_inheritance ::
  "string \<Rightarrow> string \<Rightarrow> string \<Rightarrow> string list \<Rightarrow> relationships \<Rightarrow> relationships" where
  \<comment> \<open>"Track inheritance relationships" and "Track interface implementations"\<close>
  "track_inheritance package_name full_class_name parent_class interfaces r =
     (let r1 = (if parent_class \<noteq> [] \<and> parent_class \<notin> {''Object'', ''java.lang.Object''}
                then add_inheritance (full_class_name, qualify package_name parent_class) r
                else r)
      in fold (\<lambda>interface. add_inheritance (full_class_name, qualify package_name interface))
           interfaces r1)"

record class_pass =
  processed_classes :: "string list"
  class_nodes :: "(string \<times> string) list"
  class_relationships :: relationships

definition first_pass_class :: "string \<Rightarrow> string \<Rightarrow> class_pass \<Rightarrow> class_pass" where
  \<comment> \<open>The body of the inner loop of the first pass. A node is kept as its name and the
      class name that heads its label; the rest of the label and the style are the
      renderer's.\<close>
  "first_pass_class package_name class_name st =
     (if class_name = [] then st
      else
        (let full_class_name = full_class_name_of package_name class_name in
         if full_class_name \<in> set (processed_classes st)
            \<or> startswith_any full_class_name excluded_patterns
         then st
         else
           st\<lparr>processed_classes := set_add full_class_name (processed_classes st),
              class_nodes := class_nodes st @ [(full_class_name, class_name)],
              class_relationships :=
                track_inheritance package_name full_class_name
                  parent_class_placeholder interfaces_placeholder (class_relationships st)\<rparr>))"

definition first_pass :: "index \<Rightarrow> class_pass" where
  "first_pass index_data =
     fold (\<lambda>(file_path, data). fold (first_pass_class (package data)) (classes data))
       index_data
       \<lparr>processed_classes = [], class_nodes = [], class_relationships = no_relationships\<rparr>"

fun bracket_group :: "string \<Rightarrow> string option" where
  \<comment> \<open>\<^verbatim>\<open>re.search(r'<([^>]+)>', s)\<close>: from the leftmost \<^verbatim>\<open><\<close> that is followed by at
      least one character other than \<^verbatim>\<open>>\<close> and then by \<^verbatim>\<open>>\<close>, the characters between.\<close>
  "bracket_group [] = None"
| "bracket_group (c # cs) =
     (if c = CHR ''<'' then
        (let g = takeWhile (\<lambda>x. x \<noteq> CHR ''>'') cs in
         if g \<noteq> [] \<and> length g < length cs then Some g else bracket_group cs)
      else bracket_group cs)"

definition field_relationship ::
  "string \<Rightarrow> string \<Rightarrow> string \<Rightarrow> bool \<Rightarrow> relationships \<Rightarrow> relationships" where
  \<comment> \<open>"Process field relationships": the body of the loop over the attributes, for an
      attribute of the given type and finality\<close>
  "field_relationship package_name full_class_name attr_type0 is_final r =
     (if attr_type0 = []
         \<or> attr_type0 \<in> {''int'', ''long'', ''boolean'', ''String'', ''double'', ''float''}
         \<or> startswith_any attr_type0 excluded_patterns
      then r
      else
        (let attr_type = qualify package_name attr_type0;
             is_collection =
               startswith_any attr_type [''List<'', ''Set<'', ''Map<'', ''Collection<''];
             collection_type =
               (if is_collection
                then map_option (qualify package_name) (bracket_group attr_type)
                else None)
         in if is_collection \<and> truthy collection_type then
              (if full_class_name \<noteq> the collection_type
                  \<and> the collection_type \<notin> {''String'', ''Integer'', ''Long'', ''Boolean''}
               then add_aggregation (full_class_name, the collection_type) r else r)
            else if endswith attr_type ''[]'' then
              (let base_type = qualify package_name (take (length attr_type - 2) attr_type) in
               if full_class_name \<noteq> base_type
                  \<and> base_type \<notin> {''String'', ''Integer'', ''Long'', ''Boolean''}
               then add_aggregation (full_class_name, base_type) r else r)
            else if is_final then
              (if full_class_name \<noteq> attr_type
               then add_composition (full_class_name, attr_type) r else r)
            else
              (if full_class_name \<noteq> attr_type
               then add_association (full_class_name, attr_type) r else r)))"

definition second_pass_class :: "string \<Rightarrow> string \<Rightarrow> relationships \<Rightarrow> relationships" where
  "second_pass_class package_name class_name r =
     (if class_name = [] then r
      else
        (let full_class_name = full_class_name_of package_name class_name in
         if startswith_any full_class_name excluded_patterns then r
         else
           fold (\<lambda>attr. field_relationship package_name full_class_name
                           attr_type_placeholder is_final_placeholder)
             attributes_placeholder r))"

definition second_pass :: "index \<Rightarrow> relationships \<Rightarrow> relationships" where
  "second_pass index_data r =
     fold (\<lambda>(file_path, data). fold (second_pass_class (package data)) (classes data))
       index_data r"

definition classify :: "index \<Rightarrow> relationships" where
  \<comment> \<open>the four sets of \<^verbatim>\<open>relationships\<close> after the two passes\<close>
  "classify index_data = second_pass index_data (class_relationships (first_pass index_data))"

datatype edge_kind = Inheritance | Composition | Aggregation | Association

definition both_processed :: "string list \<Rightarrow> string \<times> string \<Rightarrow> bool" where
  "both_processed processed e = (fst e \<in> set processed \<and> snd e \<in> set processed)"

definition kind_edges ::
  "edge_kind \<Rightarrow> string list \<Rightarrow> (string \<times> string) list \<Rightarrow> (string \<times> string \<times> edge_kind) list" where
  \<comment> \<open>the loops that add the inheritance, composition and aggregation edges\<close>
  "kind_edges k processed es = map (\<lambda>(s, t). (s, t, k)) (filter (both_processed processed) es)"

definition max_associations :: nat where
  "max_associations = 30"

fun association_loop ::
  "string list \<Rightarrow> (string \<times> string) list \<Rightarrow> nat \<Rightarrow> (string \<times> string) list" where
  \<comment> \<open>the loop over the association set, with its counter and its \<^verbatim>\<open>break\<close>; the result
      is the list of the edges added\<close>
  "association_loop processed [] association_count = []"
| "association_loop processed (e # es) association_count =
     (if association_count \<ge> max_associations then []
      else if both_processed processed e
           then e # association_loop processed es (association_count + 1)
           else association_loop processed es association_count)"

record class_graph =
  graph_nodes :: "(string \<times> string) list"
  graph_edges :: "(string \<times> string \<times> edge_kind) list"

definition class_diagram :: "index \<Rightarrow> class_graph" where
  \<comment> \<open>the graph built from a non-empty index, the legend node last\<close>
  "class_diagram index_data =
     (let st = first_pass index_data;
          r = second_pass index_data (class_relationships st);
          pc = processed_classes st
      in \<lparr>graph_nodes = class_nodes st @ [(''legend'', ''Legend'')],
          graph_edges =
            kind_edges Inheritance pc (inheritance r) @
            kind_edges Composition pc (composition r) @
            kind_edges Aggregation pc (aggregation r) @
            map (\<lambda>(s, t). (s, t, Association)) (association_loop pc (association r) 0)\<rparr>)"

definition generate_class_diagram :: "fs \<Rightarrow> string \<Rightarrow> string \<Rightarrow> log \<times> fs \<times> class_graph option" where
  \<comment> \<open>The result is the log, the file system after loading the index, and the graph
      handed to the renderer: none when the index is empty.\<close>
  "generate_class_diagram fs index_dir index_json =
     (let (l, fs1, index_data) = load_from_file fs index_json in
      if index_data = [] then
        (l @ [(WARNING, ''No data found in index JSON. Skipping class diagram generation.'')],
         fs1, None)
      else (l, fs1, Some (class_diagram index_data)))"

section \<open>generate\_diagrams.py: the sequence diagram\<close>

definition utility_methods :: "string list" where
  "utility_methods =
     [''save'', ''print'', ''ifPresent'', ''orElse'', ''forEach'', ''map'',
      ''equals'', ''toString'', ''hashCode'', ''get'', ''set'', ''is'',
      ''build'', ''of'', ''from'', ''clone'', ''compareTo'', ''builder'',
      ''add'', ''remove'', ''clear'', ''put'', ''create'', ''find'']"

record sequence_pass =
  participants :: "string list"
  calls_by_relation :: "((string \<times> string) \<times> (string \<times> string) list) list"

definition call_skipped :: "call_info \<Rightarrow> bool" where
  \<comment> \<open>the three \<^verbatim>\<open>continue\<close> conditions of the first pass, in their order\<close>
  "call_skipped call =
     (\<not> (caller_class call \<noteq> [] \<and> callee_class call \<noteq> []
          \<and> caller_method call \<noteq> [] \<and> callee_method call \<noteq> [])
      \<or> (startswith_any (caller_class call) excluded_patterns
          \<or> startswith_any (callee_class call) excluded_patterns
          \<or> lower (callee_method call) \<in> set utility_methods
          \<or> lower (caller_method call) \<in> set utility_methods)
      \<or> (caller_class call = callee_class call
          \<and> (startswith_any (callee_method call) [''get'', ''set'', ''is'']
               \<or> callee_method call \<in> set utility_methods)))"

definition sequence_call_step :: "call_info \<Rightarrow> sequence_pass \<Rightarrow> sequence_pass" where
  "sequence_call_step call st =
     (if call_skipped call then st
      else
        (let relation = (caller_class call, callee_class call);
             cbr = (if map_of (calls_by_relation st) relation = None
                    then AList.update relation [] (calls_by_relation st)
                    else calls_by_relation st)
         in \<lparr>participants =
               set_add (callee_class call) (set_add (caller_class call) (participants st)),
             calls_by_relation =
               AList.update relation
                 (the (map_of cbr relation) @ [(caller_method call, callee_method call)]) cbr\<rparr>))"

definition sequence_first_pass :: "index \<Rightarrow> sequence_pass" where
  "sequence_first_pass index_data =
     fold (\<lambda>(file_path, file_data). fold sequence_call_step (call_graph file_data))
       index_data \<lparr>participants = [], calls_by_relation = []\<rparr>"

definition simple_name :: "string \<Rightarrow> string" where
  \<comment> \<open>\<^verbatim>\<open>participant.split(".")[-1]\<close>\<close>
  "simple_name s = rev (takeWhile (\<lambda>c. c \<noteq> CHR ''.'') (rev s))"

definition important_calls :: "(string \<times> string) list \<Rightarrow> (string \<times> string) list" where
  \<comment> \<open>\<^verbatim>\<open>calls[:min(3, len(calls))]\<close>\<close>
  "important_calls calls = take (min 3 (length calls)) calls"

definition edge_label :: "(string \<times> string) list \<Rightarrow> string" where
  "edge_label calls =
     (case important_calls calls of
        [c] \<Rightarrow> fst c @ '' -> '' @ snd c
      | _ \<Rightarrow> str_nat (length calls) @ '' calls'')"

definition sequence_edges ::
  "((string \<times> string) \<times> (string \<times> string) list) list \<Rightarrow> (string \<times> string \<times> string) list" where
  \<comment> \<open>"Add edges with meaningful labels": an edge is its caller, its callee and its label\<close>
  "sequence_edges cbr =
     map (\<lambda>((caller, callee), calls). (caller, callee, edge_label calls))
       (filter (\<lambda>((caller, callee), calls). caller \<noteq> callee) cbr)"

record sequence_graph =
  sequence_nodes :: "(string \<times> string) list"
  sequence_graph_edges :: "(string \<times> string \<times> string) list"

definition sequence_diagram :: "index \<Rightarrow> sequence_graph" where
  "sequence_diagram index_data =
     (let st = sequence_first_pass index_data
      in \<lparr>sequence_nodes = map (\<lambda>p. (p, simple_name p)) (sort (participants st)),
          sequence_graph_edges = sequence_edges (calls_by_relation st)\<rparr>)"

definition generate_sequence_diagram :: "fs \<Rightarrow> log \<times> fs \<times> sequence_graph option" where
  "generate_sequence_diagram fs =
     (let (l, fs1, index_data) = load_from_file fs INDEX_JSON in
      if index_data = [] then
        (l @ [(WARNING, ''No data found in index.json. Skipping sequence diagram generation.'')],
         fs1, None)
      else (l, fs1, Some (sequence_diagram index_data)))"


section \<open>Auxiliary definitions for the properties\<close>

definition extract_all :: "string \<Rightarrow> tree \<Rightarrow> file_data \<Rightarrow> file_data" where
  \<comment> \<open>the three loops of \<^verbatim>\<open>parse_java_file\<close> on an entry\<close>
  "extract_all file_path t pd =
     extract_dependencies_calls file_path t (extract_classes_methods t (extract_package t pd))"

definition shift_sequence :: "nat \<Rightarrow> call_info \<Rightarrow> call_info" where
  "shift_sequence k c = c\<lparr>sequence := sequence c + k\<rparr>"

definition one_class_tree :: tree where
  \<comment> \<open>the tree of a file that declares the class \<^verbatim>\<open>A\<close> and nothing else\<close>
  "one_class_tree = [([], ClassDeclaration ''A'')]"

text \<open>What the tasks of a scan over distinct new paths log and add to the index.\<close>

definition parsed_ok :: "(string \<Rightarrow> exn + tree) \<Rightarrow> string \<Rightarrow> bool" where
  "parsed_ok parse f = (case parse f of Inl e \<Rightarrow> False | Inr t \<Rightarrow> True)"

definition parse_error_log :: "(string \<Rightarrow> exn + tree) \<Rightarrow> string \<Rightarrow> log" where
  "parse_error_log parse f =
     (case parse f of
        Inl e \<Rightarrow> [(ERROR, ''Error parsing '' @ f @ '': '' @ str_exn e)]
      | Inr t \<Rightarrow> [])"

definition fresh_entry :: "(string \<Rightarrow> exn + tree) \<Rightarrow> string \<Rightarrow> string \<times> file_data" where
  "fresh_entry parse f =
     (f, extract_all f (case parse f of Inl e \<Rightarrow> [] | Inr t \<Rightarrow> t) new_file_data)"

text \<open>
  A scan of ten files of which the fourth cannot be parsed, on the file system that
  \<^verbatim>\<open>clear_index_directory\<close> leaves: the index directory exists and is empty.
\<close>

definition ten_files :: "string list" where
  "ten_files = [''F1.java'', ''F2.java'', ''F3.java'', ''F4.java'', ''F5.java'',
                ''F6.java'', ''F7.java'', ''F8.java'', ''F9.java'', ''F10.java'']"

definition fourth_fails :: "string \<Rightarrow> exn + tree" where
  "fourth_fails f = (if f = ''F4.java'' then Inl (OtherException ''syntax error'') else Inr one_class_tree)"

definition cleared_fs :: fs where
  "cleared_fs = [INDEX_DIR \<mapsto> Dir]"

definition sample_index :: index where
  "sample_index =
     [(''A.java'', \<lparr>classes = [''A''], methods = [], dependencies = [''app.B''],
                     call_graph = [\<lparr>caller_class = ''A'', caller_method = ''run'',
                                    callee_class = ''B'', callee_method = ''go'', sequence = 1\<rparr>],
                     package = ''app''\<rparr>)]"

text \<open>
  The index of two files of the package \<^verbatim>\<open>app\<close> that declare the classes \<^verbatim>\<open>Order\<close> and
  \<^verbatim>\<open>Customer\<close>, and the index of two files without package that declare \<^verbatim>\<open>Base\<close> and
  \<^verbatim>\<open>Derived\<close>. An entry of the index has the names of the classes of a file; it has no
  place for their fields, parent classes and interfaces.
\<close>

definition order_index :: index where
  "order_index =
     [(''app/Order.java'',
       \<lparr>classes = [''Order''], methods = [], dependencies = [], call_graph = [], package = ''app''\<rparr>),
      (''app/Customer.java'',
       \<lparr>classes = [''Customer''], methods = [], dependencies = [], call_graph = [], package = ''app''\<rparr>)]"

definition derived_index :: index where
  "derived_index =
     [(''Base.java'',
       \<lparr>classes = [''Base''], methods = [], dependencies = [], call_graph = [], package = []\<rparr>),
      (''Derived.java'',
       \<lparr>classes = [''Derived''], methods = [], dependencies = [], call_graph = [], package = []\<rparr>)]"

definition no_self_fields :: "string \<Rightarrow> relationships \<Rightarrow> bool" where
  "no_self_fields x r =
     ((x, x) \<notin> set (composition r) \<and> (x, x) \<notin> set (aggregation r)
      \<and> (x, x) \<notin> set (association r))"



definition pair_ok :: "string \<times> string \<Rightarrow> bool" where
  "pair_ok m =
     (lower (fst m) \<notin> set utility_methods \<and> lower (snd m) \<notin> set utility_methods)"

definition retained_ok :: "sequence_pass \<Rightarrow> bool" where
  "retained_ok st =
     (distinct (map fst (calls_by_relation st)) \<and>
      (\<forall>e \<in> set (calls_by_relation st). snd e \<noteq> [] \<and> (\<forall>m \<in> set (snd e). pair_ok m)))"

text \<open>
  An index with three calls from \<^verbatim>\<open>A\<close> to \<^verbatim>\<open>B\<close>, the second from the method \<^verbatim>\<open>Save\<close>; that
  call alone; and a call of \<^verbatim>\<open>toString\<close>.
\<close>

definition two_calls_index :: index where
  "two_calls_index =
     [(''A.java'',
       \<lparr>classes = [''A''], methods = [], dependencies = [],
        call_graph =
          [\<lparr>caller_class = ''A'', caller_method = ''run'', callee_class = ''B'',
            callee_method = ''go'', sequence = 1\<rparr>,
           \<lparr>caller_class = ''A'', caller_method = ''Save'', callee_class = ''B'',
            callee_method = ''stop'', sequence = 2\<rparr>,
           \<lparr>caller_class = ''A'', caller_method = ''run'', callee_class = ''B'',
            callee_method = ''halt'', sequence = 3\<rparr>],
        package = []\<rparr>)]"


definition to_string_call :: call_info where
  "to_string_call =
     \<lparr>caller_class = ''A'', caller_method = ''run'', callee_class = ''B'',
      callee_method = ''toString'', sequence = 1\<rparr>"





section \<open>Indexing a file again\<close>

lemma extract_package_fields:
  "classes (extract_package t pd) = classes pd"
  "methods (extract_package t pd) = methods pd"
  "dependencies (extract_package t pd) = dependencies pd"
  "call_graph (extract_package t pd) = call_graph pd"
  by (induction t pd rule: extract_package.induct) simp_all

lemma extract_package_again:
  "package pd' = package (extract_package t pd) \<Longrightarrow>
   package (extract_package t pd') = package (extract_package t pd)"
  by (induction t pd arbitrary: pd' rule: extract_package.induct) simp_all

lemma class_method_step_fields:
  "dependencies (class_method_step x pd) = dependencies pd"
  "call_graph (class_method_step x pd) = call_graph pd"
  "package (class_method_step x pd) = package pd"
  by (induction x pd rule: class_method_step.induct) (simp_all add: Let_def)

lemma class_method_step_app:
  "classes (class_method_step x pd) = classes pd @ classes (class_method_step x new_file_data)"
  "methods (class_method_step x pd) = methods pd @ methods (class_method_step x new_file_data)"
  by (induction x pd rule: class_method_step.induct) (simp_all add: Let_def new_file_data_def)

lemma extract_classes_methods_fields:
  "dependencies (extract_classes_methods t pd) = dependencies pd"
  "call_graph (extract_classes_methods t pd) = call_graph pd"
  "package (extract_classes_methods t pd) = package pd"
  unfolding extract_classes_methods_def
  by (induction t arbitrary: pd) (simp_all add: class_method_step_fields)

lemma extract_classes_methods_classes:
  "classes (extract_classes_methods t pd) =
     classes pd @ classes (extract_classes_methods t new_file_data)"
  unfolding extract_classes_methods_def
proof (induction t arbitrary: pd)
  case Nil
  show ?case by (simp add: new_file_data_def)
next
  case (Cons x t)
  have "classes (fold class_method_step t (class_method_step x pd)) =
        classes (class_method_step x pd) @ classes (fold class_method_step t new_file_data)"
    by (rule Cons.IH)
  moreover have "classes (fold class_method_step t (class_method_step x new_file_data)) =
        classes (class_method_step x new_file_data) @ classes (fold class_method_step t new_file_data)"
    by (rule Cons.IH)
  ultimately show ?case
    using class_method_step_app(1) [of x pd] by simp
qed

lemma extract_classes_methods_methods:
  "methods (extract_classes_methods t pd) =
     methods pd @ methods (extract_classes_methods t new_file_data)"
  unfolding extract_classes_methods_def
proof (induction t arbitrary: pd)
  case Nil
  show ?case by (simp add: new_file_data_def)
next
  case (Cons x t)
  have "methods (fold class_method_step t (class_method_step x pd)) =
        methods (class_method_step x pd) @ methods (fold class_method_step t new_file_data)"
    by (rule Cons.IH)
  moreover have "methods (fold class_method_step t (class_method_step x new_file_data)) =
        methods (class_method_step x new_file_data) @ methods (fold class_method_step t new_file_data)"
    by (rule Cons.IH)
  ultimately show ?case
    using class_method_step_app(2) [of x pd] by simp
qed

lemma dependency_call_step_fields:
  "classes (dependency_call_step p x pd) = classes pd"
  "methods (dependency_call_step p x pd) = methods pd"
  "package (dependency_call_step p x pd) = package pd"
  by (induction p x pd rule: dependency_call_step.induct) (simp_all add: Let_def split: prod.splits)

lemma dependency_call_step_app:
  "dependencies (dependency_call_step p x pd) =
     dependencies pd @ dependencies (dependency_call_step p x new_file_data)"
  "call_graph (dependency_call_step p x pd) =
     call_graph pd @ map (shift_sequence (length (call_graph pd)))
       (call_graph (dependency_call_step p x new_file_data))"
  by (induction p x pd rule: dependency_call_step.induct)
     (simp_all add: Let_def new_file_data_def shift_sequence_def split: prod.splits)

lemma shift_sequence_add: "shift_sequence a (shift_sequence b c) = shift_sequence (b + a) c"
  by (simp add: shift_sequence_def)

lemma extract_dependencies_calls_fields:
  "classes (extract_dependencies_calls p t pd) = classes pd"
  "methods (extract_dependencies_calls p t pd) = methods pd"
  "package (extract_dependencies_calls p t pd) = package pd"
  unfolding extract_dependencies_calls_def
  by (induction t arbitrary: pd) (simp_all add: dependency_call_step_fields)

lemma extract_dependencies_calls_dependencies:
  "dependencies (extract_dependencies_calls p t pd) =
     dependencies pd @ dependencies (extract_dependencies_calls p t new_file_data)"
  unfolding extract_dependencies_calls_def
proof (induction t arbitrary: pd)
  case Nil
  show ?case by (simp add: new_file_data_def)
next
  case (Cons x t)
  let ?f = "dependency_call_step p"
  have "dependencies (fold ?f t (?f x pd)) =
        dependencies (?f x pd) @ dependencies (fold ?f t new_file_data)"
    by (rule Cons.IH)
  moreover have "dependencies (fold ?f t (?f x new_file_data)) =
        dependencies (?f x new_file_data) @ dependencies (fold ?f t new_file_data)"
    by (rule Cons.IH)
  ultimately show ?case
    using dependency_call_step_app(1) [of p x pd] by simp
qed

lemma extract_dependencies_calls_call_graph:
  "call_graph (extract_dependencies_calls p t pd) =
     call_graph pd @ map (shift_sequence (length (call_graph pd)))
       (call_graph (extract_dependencies_calls p t new_file_data))"
  unfolding extract_dependencies_calls_def
proof (induction t arbitrary: pd)
  case Nil
  show ?case by (simp add: new_file_data_def)
next
  case (Cons x t)
  let ?f = "dependency_call_step p"
  let ?n = "length (call_graph pd)"
  let ?cx = "call_graph (?f x new_file_data)"
  let ?ct = "call_graph (fold ?f t new_file_data)"
  have a: "call_graph (?f x pd) = call_graph pd @ map (shift_sequence ?n) ?cx"
    by (rule dependency_call_step_app(2))
  have b: "call_graph (fold ?f t (?f x pd)) =
        call_graph (?f x pd) @ map (shift_sequence (length (call_graph (?f x pd)))) ?ct"
    by (rule Cons.IH)
  have c: "call_graph (fold ?f t (?f x new_file_data)) =
        ?cx @ map (shift_sequence (length ?cx)) ?ct"
    by (rule Cons.IH)
  have d: "length (call_graph (?f x pd)) = length ?cx + ?n"
    using a by simp
  have "call_graph (fold ?f (x # t) pd) =
        call_graph pd @ map (shift_sequence ?n) ?cx @ map (shift_sequence (length ?cx + ?n)) ?ct"
    using a b d by (simp add: add.commute)
  moreover have "map (shift_sequence ?n) (call_graph (fold ?f (x # t) new_file_data)) =
        map (shift_sequence ?n) ?cx @ map (shift_sequence (length ?cx + ?n)) ?ct"
    using c by (simp add: shift_sequence_add comp_def)
  ultimately show ?case by simp
qed

lemma new_file_data_fields:
  "classes new_file_data = []" "methods new_file_data = []"
  "dependencies new_file_data = []" "call_graph new_file_data = []"
  by (simp_all add: new_file_data_def)

lemma extract_all_classes:
  "classes (extract_all p t pd) = classes pd @ classes (extract_all p t new_file_data)"
proof -
  have "classes (extract_all p t pd') =
        classes pd' @ classes (extract_classes_methods t new_file_data)" for pd'
    unfolding extract_all_def extract_dependencies_calls_fields
    using extract_classes_methods_classes [of t "extract_package t pd'"]
    by (simp add: extract_package_fields)
  from this [of pd] this [of new_file_data] show ?thesis
    by (simp add: new_file_data_fields)
qed

lemma extract_all_methods:
  "methods (extract_all p t pd) = methods pd @ methods (extract_all p t new_file_data)"
proof -
  have "methods (extract_all p t pd') =
        methods pd' @ methods (extract_classes_methods t new_file_data)" for pd'
    unfolding extract_all_def extract_dependencies_calls_fields
    using extract_classes_methods_methods [of t "extract_package t pd'"]
    by (simp add: extract_package_fields)
  from this [of pd] this [of new_file_data] show ?thesis
    by (simp add: new_file_data_fields)
qed

lemma extract_all_dependencies:
  "dependencies (extract_all p t pd) =
     dependencies pd @ dependencies (extract_all p t new_file_data)"
proof -
  have "dependencies (extract_all p t pd') =
        dependencies pd' @ dependencies (extract_dependencies_calls p t new_file_data)" for pd'
    unfolding extract_all_def
    using extract_dependencies_calls_dependencies
            [of p t "extract_classes_methods t (extract_package t pd')"]
    by (simp add: extract_classes_methods_fields extract_package_fields)
  from this [of pd] this [of new_file_data] show ?thesis
    by (simp add: new_file_data_fields)
qed

lemma extract_all_call_graph:
  "call_graph (extract_all p t pd) =
     call_graph pd @ map (shift_sequence (length (call_graph pd)))
       (call_graph (extract_all p t new_file_data))"
proof -
  have "call_graph (extract_all p t pd') =
        call_graph pd' @ map (shift_sequence (length (call_graph pd')))
          (call_graph (extract_dependencies_calls p t new_file_data))" for pd'
    unfolding extract_all_def
    using extract_dependencies_calls_call_graph
            [of p t "extract_classes_methods t (extract_package t pd')"]
    by (simp add: extract_classes_methods_fields extract_package_fields)
  from this [of pd] this [of new_file_data] show ?thesis
    by (simp add: new_file_data_fields shift_sequence_def)
qed

lemma extract_all_package:
  "package (extract_all p t pd) = package (extract_package t pd)"
  by (simp add: extract_all_def extract_dependencies_calls_fields extract_classes_methods_fields)

lemma extract_all_package_again:
  "package (extract_all p t (extract_all p t pd)) = package (extract_all p t pd)"
  by (simp add: extract_all_package extract_package_again)

lemma parse_java_file_Inr:
  assumes "parse p = Inr t"
  shows "parse_java_file parse p idx =
     ([], AList.update p (extract_all p t (case map_of idx p of None \<Rightarrow> new_file_data | Some e \<Rightarrow> e)) idx)"
  using assms
  by (auto simp: parse_java_file_def in_index_def extract_all_def Let_def AList.update_conv')


lemma extract_all_again_eq:
  "extract_all p t (extract_all p t pd) = extract_all p t pd \<longleftrightarrow>
     classes (extract_all p t new_file_data) = [] \<and>
     methods (extract_all p t new_file_data) = [] \<and>
     dependencies (extract_all p t new_file_data) = [] \<and>
     call_graph (extract_all p t new_file_data) = []"
  (is "?e2 = ?e1 \<longleftrightarrow> ?empty")
proof
  assume eq: "?e2 = ?e1"
  have "classes ?e2 = classes ?e1" "methods ?e2 = methods ?e1"
       "dependencies ?e2 = dependencies ?e1" "call_graph ?e2 = call_graph ?e1"
    using eq by simp_all
  then show ?empty
    using extract_all_classes [of p t ?e1] extract_all_methods [of p t ?e1]
          extract_all_dependencies [of p t ?e1] extract_all_call_graph [of p t ?e1]
    by simp
next
  assume ?empty
  then have "classes ?e2 = classes ?e1" "methods ?e2 = methods ?e1"
       "dependencies ?e2 = dependencies ?e1" "call_graph ?e2 = call_graph ?e1"
    using extract_all_classes [of p t ?e1] extract_all_methods [of p t ?e1]
          extract_all_dependencies [of p t ?e1] extract_all_call_graph [of p t ?e1]
    by simp_all
  moreover have "package ?e2 = package ?e1"
    by (rule extract_all_package_again)
  ultimately show "?e2 = ?e1"
    by (intro file_data.equality) simp_all
qed

text \<open>
  Claim C1, as amended. \<^verbatim>\<open>parse_java_file\<close> creates the entry of a path only when the
  path is not in the index, and appends to the lists of the entry otherwise. Indexing
  an unchanged file again therefore appends the classes, methods, dependencies and
  calls of the file once more (the calls numbered on from the length of the list);
  only the package is the same. The index after the second run equals the index after
  the first exactly when the file contributes no class, method, dependency and call.
\<close>

theorem parse_java_file_reindex_appends:
  assumes "parse file_path = Inr t"
  shows "let once = snd (parse_java_file parse file_path index_data);
             twice = snd (parse_java_file parse file_path once)
         in \<exists>fresh e1 e2.
              map_of (snd (parse_java_file parse file_path [])) file_path = Some fresh \<and>
              map_of once file_path = Some e1 \<and>
              map_of twice file_path = Some e2 \<and>
              classes e2 = classes e1 @ classes fresh \<and>
              methods e2 = methods e1 @ methods fresh \<and>
              dependencies e2 = dependencies e1 @ dependencies fresh \<and>
              call_graph e2 =
                call_graph e1 @ map (shift_sequence (length (call_graph e1))) (call_graph fresh) \<and>
              package e2 = package e1 \<and>
              (twice = once \<longleftrightarrow>
                 classes fresh = [] \<and> methods fresh = [] \<and>
                 dependencies fresh = [] \<and> call_graph fresh = [])"
proof -
  define e0 where "e0 = (case map_of index_data file_path of None \<Rightarrow> new_file_data | Some e \<Rightarrow> e)"
  define fresh where "fresh = extract_all file_path t new_file_data"
  define e1 where "e1 = extract_all file_path t e0"
  define e2 where "e2 = extract_all file_path t e1"
  define once where "once = snd (parse_java_file parse file_path index_data)"
  define twice where "twice = snd (parse_java_file parse file_path once)"
  note pj = parse_java_file_Inr [of parse file_path t, OF assms]
  have once: "once = AList.update file_path e1 index_data"
    by (simp add: once_def e1_def e0_def pj)
  then have m1: "map_of once file_path = Some e1"
    by (simp add: AList.update_conv')
  have twice: "twice = AList.update file_path e2 once"
    by (simp add: twice_def e2_def pj m1)
  then have m2: "map_of twice file_path = Some e2"
    by (simp add: AList.update_conv')
  have m0: "map_of (snd (parse_java_file parse file_path [])) file_path = Some fresh"
    by (simp add: pj fresh_def)
  have same: "twice = once \<longleftrightarrow> e2 = e1"
  proof
    assume "twice = once"
    with m1 m2 show "e2 = e1" by simp
  next
    assume "e2 = e1"
    with twice m1 show "twice = once" by (simp add: AList.update_triv)
  qed
  have "classes e2 = classes e1 @ classes fresh"
    and "methods e2 = methods e1 @ methods fresh"
    and "dependencies e2 = dependencies e1 @ dependencies fresh"
    and "call_graph e2 =
           call_graph e1 @ map (shift_sequence (length (call_graph e1))) (call_graph fresh)"
    and "package e2 = package e1"
    unfolding e2_def fresh_def
    using extract_all_classes [of file_path t e1] extract_all_methods [of file_path t e1]
      extract_all_dependencies [of file_path t e1] extract_all_call_graph [of file_path t e1]
      extract_all_package_again [of file_path t e0]
    by (simp_all add: e1_def)
  moreover have "twice = once \<longleftrightarrow>
      classes fresh = [] \<and> methods fresh = [] \<and> dependencies fresh = [] \<and> call_graph fresh = []"
    unfolding same e2_def e1_def fresh_def by (rule extract_all_again_eq)
  ultimately show ?thesis
    using m0 m1 m2 unfolding once_def [symmetric] twice_def [symmetric] Let_def
    by blast
qed

text \<open>The theorem at a file that declares one class, indexed into the empty index.\<close>

theorem parse_java_file_reindex_appends_witness:
  "(\<lambda>p. Inr one_class_tree :: exn + tree) ''A.java'' = Inr one_class_tree \<and>
   (let once = snd (parse_java_file (\<lambda>p. Inr one_class_tree) ''A.java'' []);
        twice = snd (parse_java_file (\<lambda>p. Inr one_class_tree) ''A.java'' once)
    in \<exists>fresh e1 e2.
         map_of (snd (parse_java_file (\<lambda>p. Inr one_class_tree) ''A.java'' [])) ''A.java'' = Some fresh \<and>
         map_of once ''A.java'' = Some e1 \<and>
         map_of twice ''A.java'' = Some e2 \<and>
         classes e2 = classes e1 @ classes fresh \<and>
         methods e2 = methods e1 @ methods fresh \<and>
         dependencies e2 = dependencies e1 @ dependencies fresh \<and>
         call_graph e2 =
           call_graph e1 @ map (shift_sequence (length (call_graph e1))) (call_graph fresh) \<and>
         package e2 = package e1 \<and>
         (twice = once \<longleftrightarrow>
            classes fresh = [] \<and> methods fresh = [] \<and>
            dependencies fresh = [] \<and> call_graph fresh = []))"
proof -
  have h: "(\<lambda>p. Inr one_class_tree :: exn + tree) ''A.java'' = Inr one_class_tree"
    by simp
  show ?thesis
    using h parse_java_file_reindex_appends [of "\<lambda>p. Inr one_class_tree" "''A.java''" one_class_tree "[]", OF h]
    by blast
qed

text \<open>
  Claim C1 as stated fails: after the file with the one class \<^verbatim>\<open>A\<close> has been indexed,
  indexing it again gives an entry with the class listed twice.
\<close>

theorem parse_java_file_not_idempotent:
  "let parse = (\<lambda>p. Inr one_class_tree);
       once = snd (parse_java_file parse ''A.java'' []);
       twice = snd (parse_java_file parse ''A.java'' once)
   in in_index ''A.java'' once \<and>
      map (classes \<circ> snd) once = [[''A'']] \<and>
      map (classes \<circ> snd) twice = [[''A'', ''A'']] \<and>
      map_of twice ''A.java'' \<noteq> map_of once ''A.java''"
  by (simp add: parse_java_file_def in_index_def one_class_tree_def new_file_data_def
        extract_classes_methods_def extract_dependencies_calls_def Let_def)

section \<open>The snapshot file\<close>

lemma dirname_INDEX_JSON: "dirname INDEX_JSON = INDEX_DIR"
  by (simp add: dirname_def INDEX_JSON_def INDEX_DIR_def)

lemma INDEX_JSON_neq_DIR:
  "INDEX_JSON \<noteq> INDEX_DIR" "INDEX_DIR \<noteq> INDEX_JSON" "INDEX_DIR \<noteq> []"
  by (simp_all add: INDEX_JSON_def INDEX_DIR_def)

lemma load_from_file_result:
  "snd (snd (load_from_file fs file_path)) =
     (case fs file_path of Some (File (Document d)) \<Rightarrow> d | _ \<Rightarrow> [])"
  by (auto simp: load_from_file_def exists_path_def open_read_def json_load_def load_failed_def
        Let_def split: sum.splits option.splits entry.splits content.splits)

text \<open>
  Claim C6. Saving an index and loading it from the same path gives the index back,
  every record with its fields and values; loading logs nothing and leaves the file
  system as it is. \<^verbatim>\<open>save_to_file\<close> catches nothing, so the statement is about a save
  that returned. (The encoding into JSON text and back is the standard library's; a
  file holds the document.)
\<close>

theorem save_then_load:
  assumes "save_to_file fs file_path data = Inr fs'"
  shows "load_from_file fs' file_path = ([], fs', data)"
proof -
  from assms obtain fs1 where
    "makedirs fs (dirname file_path) = Inr fs1"
    "open_write fs1 file_path (Document data) = Inr fs'"
    by (auto simp: save_to_file_def split: sum.splits)
  then have "fs' file_path = Some (File (Document data))"
    by (auto simp: open_write_def split: option.splits entry.splits)
  then show ?thesis
    by (simp add: load_from_file_def exists_path_def open_read_def json_load_def)
qed

text \<open>The theorem at the index file, on an empty file system.\<close>

theorem save_then_load_witness:
  "save_to_file Map.empty INDEX_JSON sample_index =
     Inr [INDEX_DIR \<mapsto> Dir, INDEX_JSON \<mapsto> File (Document sample_index)] \<and>
   load_from_file [INDEX_DIR \<mapsto> Dir, INDEX_JSON \<mapsto> File (Document sample_index)] INDEX_JSON =
     ([], [INDEX_DIR \<mapsto> Dir, INDEX_JSON \<mapsto> File (Document sample_index)], sample_index)"
proof -
  have h: "save_to_file Map.empty INDEX_JSON sample_index =
     Inr [INDEX_DIR \<mapsto> Dir, INDEX_JSON \<mapsto> File (Document sample_index)]"
    by (simp add: save_to_file_def dirname_INDEX_JSON makedirs_def INDEX_JSON_neq_DIR
          open_write_def)
  from h save_then_load [OF h] show ?thesis by simp
qed




section \<open>Scanning a directory\<close>

lemma update_absent: "k \<notin> fst ` set al \<Longrightarrow> AList.update k v al = al @ [(k, v)]"
  by (induction al) auto

lemma parse_java_file_absent:
  assumes "f \<notin> fst ` set idx"
  shows "parse_java_file parse f idx =
           (parse_error_log parse f, idx @ (if parsed_ok parse f then [fresh_entry parse f] else []))"
proof (cases "parse f")
  case (Inl e)
  then show ?thesis
    by (simp add: parse_java_file_def parse_error_log_def parsed_ok_def)
next
  case (Inr t)
  have "map_of idx f = None" using assms by (simp add: map_of_eq_None_iff)
  then show ?thesis
    using Inr assms parse_java_file_Inr [of parse f t idx]
    by (simp add: parse_error_log_def parsed_ok_def fresh_entry_def update_absent)
qed

lemma run_tasks_parse:
  assumes "distinct files" "set files \<inter> fst ` set idx = {}"
  shows "run_tasks (parse_java_task parse) files (errors, lg, idx) =
           (errors, lg @ concat (map (parse_error_log parse) files),
            idx @ map (fresh_entry parse) (filter (parsed_ok parse) files))"
  using assms
proof (induction files arbitrary: lg idx)
  case Nil
  then show ?case by simp
next
  case (Cons f files)
  let ?idx = "idx @ (if parsed_ok parse f then [fresh_entry parse f] else [])"
  have absent: "f \<notin> fst ` set idx" using Cons.prems by auto
  have step: "run_tasks (parse_java_task parse) (f # files) (errors, lg, idx) =
              run_tasks (parse_java_task parse) files (errors, lg @ parse_error_log parse f, ?idx)"
    by (simp add: parse_java_task_def parse_java_file_absent [OF absent])
  have "set files \<inter> fst ` set ?idx = {}"
    using Cons.prems by (auto simp: fresh_entry_def)
  moreover have "distinct files" using Cons.prems by simp
  ultimately show ?case
    unfolding step using Cons.IH [of ?idx "lg @ parse_error_log parse f"] by simp
qed

lemma load_missing_index:
  assumes "fs INDEX_JSON = None" "fs INDEX_DIR = Some Dir"
  shows "load_from_file fs INDEX_JSON =
     ([(WARNING, ''File '' @ INDEX_JSON @ '' not found. Creating an empty index file.'')],
      fs(INDEX_JSON \<mapsto> File (Document [])), [])"
  using assms
  by (simp add: load_from_file_def exists_path_def dirname_INDEX_JSON makedirs_def
        INDEX_JSON_neq_DIR open_write_def)

lemma save_index:
  assumes "fs INDEX_DIR = Some Dir"
  shows "save_to_file (fs(INDEX_JSON \<mapsto> File (Document d'))) INDEX_JSON d =
     Inr (fs(INDEX_JSON \<mapsto> File (Document d)))"
  using assms
  by (simp add: save_to_file_def dirname_INDEX_JSON makedirs_def INDEX_JSON_neq_DIR
        open_write_def)

lemma ten_files_facts:
  "ten_files \<noteq> []" "distinct ten_files"
  "cleared_fs INDEX_JSON = None" "cleared_fs INDEX_DIR = Some Dir"
  by (simp_all add: ten_files_def cleared_fs_def INDEX_JSON_def INDEX_DIR_def)

lemma ten_files_parsed:
  "filter (parsed_ok fourth_fails) ten_files =
     [''F1.java'', ''F2.java'', ''F3.java'', ''F5.java'', ''F6.java'',
      ''F7.java'', ''F8.java'', ''F9.java'', ''F10.java'']"
  by (simp add: ten_files_def parsed_ok_def fourth_fails_def)

lemma ten_files_log:
  "concat (map (parse_error_log fourth_fails) ten_files) =
     [(ERROR, ''Error parsing F4.java: syntax error'')]"
  by (simp add: ten_files_def parse_error_log_def fourth_fails_def)

text \<open>
  Claim C4, as amended. \<^verbatim>\<open>parse_java_file\<close> catches the exception of reading or parsing
  a file itself, logs it with the path and returns; nothing reaches \<^verbatim>\<open>future.result()\<close>.
  A scan of distinct files into the cleared index directory therefore returns with
  the entries of exactly the files that were parsed, each as extracted from its file,
  saves this index, logs one error line for each file that failed, and leaves the
  aggregate list \<^verbatim>\<open>errors\<close> empty.
\<close>

theorem scan_isolates_failures:
  assumes "java_files \<noteq> []" "distinct java_files"
    and "fs INDEX_JSON = None" "fs INDEX_DIR = Some Dir"
  shows "\<exists>r. scan_directory_incremental parse True java_files directory fs = Inr r \<and>
             scan_errors r = [] \<and>
             scan_index r = map (fresh_entry parse) (filter (parsed_ok parse) java_files) \<and>
             scan_fs r INDEX_JSON = Some (File (Document (scan_index r))) \<and>
             scan_log r =
               (WARNING, ''File '' @ INDEX_JSON @ '' not found. Creating an empty index file.'')
               # concat (map (parse_error_log parse) java_files)"
proof -
  let ?index = "map (fresh_entry parse) (filter (parsed_ok parse) java_files)"
  have load: "load_from_file fs INDEX_JSON =
     ([(WARNING, ''File '' @ INDEX_JSON @ '' not found. Creating an empty index file.'')],
      fs(INDEX_JSON \<mapsto> File (Document [])), [])"
    by (rule load_missing_index [of fs, OF assms(3,4)])
  have run: "run_tasks (parse_java_task parse) java_files ([], [], []) =
     ([], concat (map (parse_error_log parse) java_files), ?index)"
    using run_tasks_parse [of java_files "[]" parse "[]" "[]"] assms(2) by simp
  have save: "save_to_file (fs(INDEX_JSON \<mapsto> File (Document []))) INDEX_JSON ?index =
     Inr (fs(INDEX_JSON \<mapsto> File (Document ?index)))"
    by (rule save_index [of fs, OF assms(4)])
  show ?thesis
    using assms(1)
    by (simp add: scan_directory_incremental_def load run save report_errors_def)
qed

text \<open>The theorem at the scan of ten files of which the fourth fails.\<close>

theorem scan_isolates_failures_witness:
  "ten_files \<noteq> [] \<and> distinct ten_files \<and>
   cleared_fs INDEX_JSON = None \<and> cleared_fs INDEX_DIR = Some Dir \<and>
   (\<exists>r. scan_directory_incremental fourth_fails True ten_files ''./cloned_repo'' cleared_fs = Inr r \<and>
        scan_errors r = [] \<and>
        map fst (scan_index r) =
          [''F1.java'', ''F2.java'', ''F3.java'', ''F5.java'', ''F6.java'',
           ''F7.java'', ''F8.java'', ''F9.java'', ''F10.java''] \<and>
        scan_fs r INDEX_JSON = Some (File (Document (scan_index r))) \<and>
        scan_log r =
          [(WARNING, ''File '' @ INDEX_JSON @ '' not found. Creating an empty index file.''),
           (ERROR, ''Error parsing F4.java: syntax error'')])"
proof -
  obtain r where r:
    "scan_directory_incremental fourth_fails True ten_files ''./cloned_repo'' cleared_fs = Inr r"
    "scan_errors r = []"
    "scan_index r = map (fresh_entry fourth_fails) (filter (parsed_ok fourth_fails) ten_files)"
    "scan_fs r INDEX_JSON = Some (File (Document (scan_index r)))"
    "scan_log r =
       (WARNING, ''File '' @ INDEX_JSON @ '' not found. Creating an empty index file.'')
       # concat (map (parse_error_log fourth_fails) ten_files)"
    using scan_isolates_failures [of ten_files cleared_fs fourth_fails "''./cloned_repo''",
            OF ten_files_facts]
    by blast
  have "map fst (scan_index r) = filter (parsed_ok fourth_fails) ten_files"
    unfolding r(3) by (simp add: fresh_entry_def comp_def)
  with r show ?thesis
    by (simp add: ten_files_facts ten_files_parsed ten_files_log)
qed

text \<open>
  Claim C4 as stated fails: in the scan of ten files of which the fourth cannot be
  parsed, the index gets nine entries and the run returns, but the aggregate list of
  failures is empty; the path of the fourth file is not in it.
\<close>

theorem scan_errors_miss_parse_failure:
  "\<exists>r. scan_directory_incremental fourth_fails True ten_files ''./cloned_repo'' cleared_fs = Inr r \<and>
       length (scan_index r) = 9 \<and>
       scan_errors r = [] \<and>
       length (scan_errors r) \<noteq> 1"
proof -
  have "run_tasks (parse_java_task fourth_fails) ten_files ([], [], []) =
     ([], concat (map (parse_error_log fourth_fails) ten_files),
      map (fresh_entry fourth_fails) (filter (parsed_ok fourth_fails) ten_files))"
    using run_tasks_parse [of ten_files "[]" fourth_fails "[]" "[]"] ten_files_facts(2)
    by simp
  then show ?thesis
    using ten_files_facts(1)
    by (simp add: scan_directory_incremental_def ten_files_parsed
          load_missing_index [of cleared_fs, OF ten_files_facts(3,4)]
          save_index [of cleared_fs, OF ten_files_facts(4)] report_errors_def)
qed

section \<open>The class diagram\<close>

lemma fold_invariant:
  assumes "P s" and "\<And>x s. P s \<Longrightarrow> P (f x s)"
  shows "P (fold f xs s)"
  using assms(1) by (induction xs arbitrary: s) (simp_all add: assms(2))

lemma set_set_add [simp]: "set (set_add x xs) = insert x (set xs)"
  by (auto simp: set_add_def)

lemma add_fields [simp]:
  "inheritance (add_inheritance e r) = set_add e (inheritance r)"
  "composition (add_inheritance e r) = composition r"
  "aggregation (add_inheritance e r) = aggregation r"
  "association (add_inheritance e r) = association r"
  "inheritance (add_composition e r) = inheritance r"
  "composition (add_composition e r) = set_add e (composition r)"
  "aggregation (add_composition e r) = aggregation r"
  "association (add_composition e r) = association r"
  "inheritance (add_aggregation e r) = inheritance r"
  "composition (add_aggregation e r) = composition r"
  "aggregation (add_aggregation e r) = set_add e (aggregation r)"
  "association (add_aggregation e r) = association r"
  "inheritance (add_association e r) = inheritance r"
  "composition (add_association e r) = composition r"
  "aggregation (add_association e r) = aggregation r"
  "association (add_association e r) = set_add e (association r)"
  by (simp_all add: add_inheritance_def add_composition_def add_aggregation_def
        add_association_def)

text \<open>The guards of the field rule: it adds no edge from a class to itself.\<close>

lemma field_relationship_guarded:
  "inheritance (field_relationship p c a fin r) = inheritance r \<and>
   (no_self_fields x r \<longrightarrow> no_self_fields x (field_relationship p c a fin r))"
proof -
  define skip where "skip \<longleftrightarrow> a = []
         \<or> a \<in> {''int'', ''long'', ''boolean'', ''String'', ''double'', ''float''}
         \<or> startswith_any a excluded_patterns"
  define isc where "isc = startswith_any (qualify p a) [''List<'', ''Set<'', ''Map<'', ''Collection<'']"
  define ct where "ct = (if isc then map_option (qualify p) (bracket_group (qualify p a)) else None)"
  define boxed where "boxed = {''String'', ''Integer'', ''Long'', ''Boolean''}"
  define base where "base = qualify p (take (length (qualify p a) - 2) (qualify p a))"
  have eq: "field_relationship p c a fin r =
     (if skip then r
      else if isc \<and> truthy ct then
        (if c \<noteq> the ct \<and> the ct \<notin> boxed then add_aggregation (c, the ct) r else r)
      else if endswith (qualify p a) ''[]'' then
        (if c \<noteq> base \<and> base \<notin> boxed then add_aggregation (c, base) r else r)
      else if fin then (if c \<noteq> qualify p a then add_composition (c, qualify p a) r else r)
      else (if c \<noteq> qualify p a then add_association (c, qualify p a) r else r))"
    unfolding field_relationship_def Let_def skip_def isc_def ct_def boxed_def base_def
    by (rule refl)
  show ?thesis
    unfolding eq by (simp add: no_self_fields_def)
qed

lemma field_relationship_inheritance:
  "inheritance (field_relationship p c a fin r) = inheritance r"
  using field_relationship_guarded [of p c a fin r] by simp

lemma field_relationship_no_self_fields:
  "no_self_fields x r \<Longrightarrow> no_self_fields x (field_relationship p c a fin r)"
  using field_relationship_guarded [of p c a fin r x] by simp

lemma second_pass_class_no_self:
  assumes "no_self_fields x r"
  shows "no_self_fields x (second_pass_class p c r)"
proof -
  have "no_self_fields x (fold (\<lambda>attr. field_relationship p c' a fin) attrs r)"
    for c' a fin and attrs :: "string list"
    by (rule fold_invariant [where P = "no_self_fields x"])
       (simp_all add: assms field_relationship_no_self_fields)
  then show ?thesis
    using assms by (simp add: second_pass_class_def Let_def)
qed

lemma second_pass_no_self:
  assumes "no_self_fields x r"
  shows "no_self_fields x (second_pass index_data r)"
  unfolding second_pass_def
proof (rule fold_invariant [where P = "no_self_fields x"])
  show "no_self_fields x r" by (rule assms)
next
  fix fd :: "string \<times> file_data" and s :: relationships
  assume s: "no_self_fields x s"
  have "no_self_fields x (fold (second_pass_class (package (snd fd))) (classes (snd fd)) s)"
    by (rule fold_invariant [where P = "no_self_fields x"])
       (simp_all add: s second_pass_class_no_self)
  then show "no_self_fields x
     ((\<lambda>(file_path, data). fold (second_pass_class (package data)) (classes data)) fd s)"
    by (simp add: split_def)
qed

lemma second_pass_class_inheritance:
  "inheritance (second_pass_class p c r) = inheritance r"
proof -
  have "inheritance (fold (\<lambda>attr. field_relationship p c' a fin) attrs r) = inheritance r"
    for c' a fin and attrs :: "string list"
    by (rule fold_invariant [where P = "\<lambda>s. inheritance s = inheritance r"])
       (simp_all add: field_relationship_inheritance)
  then show ?thesis
    by (simp add: second_pass_class_def Let_def)
qed

lemma second_pass_inheritance:
  "inheritance (second_pass index_data r) = inheritance r"
  unfolding second_pass_def
proof (rule fold_invariant [where P = "\<lambda>s. inheritance s = inheritance r"])
  show "inheritance r = inheritance r" by simp
next
  fix fd :: "string \<times> file_data" and s :: relationships
  assume s: "inheritance s = inheritance r"
  have "inheritance (fold (second_pass_class (package (snd fd))) (classes (snd fd)) s) =
        inheritance r"
    by (rule fold_invariant [where P = "\<lambda>s. inheritance s = inheritance r"])
       (simp_all add: s second_pass_class_inheritance)
  then show "inheritance
     ((\<lambda>(file_path, data). fold (second_pass_class (package data)) (classes data)) fd s) =
     inheritance r"
    by (simp add: split_def)
qed

lemma track_inheritance_placeholder:
  "track_inheritance p c parent_class_placeholder interfaces_placeholder r = r"
  by (simp add: track_inheritance_def parent_class_placeholder_def interfaces_placeholder_def)

lemma first_pass_class_relationships:
  "class_relationships (first_pass_class p c st) = class_relationships st"
  by (simp add: first_pass_class_def Let_def track_inheritance_placeholder)

lemma first_pass_relationships:
  "class_relationships (first_pass index_data) = no_relationships"
  unfolding first_pass_def
proof (rule fold_invariant [where P = "\<lambda>s. class_relationships s = no_relationships"])
  show "class_relationships
     \<lparr>processed_classes = [], class_nodes = [], class_relationships = no_relationships\<rparr> =
     no_relationships"
    by simp
next
  fix fd :: "string \<times> file_data" and s :: class_pass
  assume s: "class_relationships s = no_relationships"
  have "class_relationships (fold (first_pass_class (package (snd fd))) (classes (snd fd)) s) =
        no_relationships"
    by (rule fold_invariant [where P = "\<lambda>s. class_relationships s = no_relationships"])
       (simp_all add: s first_pass_class_relationships)
  then show "class_relationships
     ((\<lambda>(file_path, data). fold (first_pass_class (package data)) (classes data)) fd s) =
     no_relationships"
    by (simp add: split_def)
qed

lemma second_pass_class_placeholder: "second_pass_class p c r = r"
  by (simp add: second_pass_class_def Let_def attributes_placeholder_def)

lemma second_pass_placeholder: "second_pass index_data r = r"
  unfolding second_pass_def
proof (rule fold_invariant [where P = "\<lambda>s. s = r"])
  show "r = r" by simp
next
  fix fd :: "string \<times> file_data" and s :: relationships
  assume s: "s = r"
  have "fold (second_pass_class (package (snd fd))) (classes (snd fd)) s = r"
    by (rule fold_invariant [where P = "\<lambda>s. s = r"])
       (simp_all add: s second_pass_class_placeholder)
  then show "(\<lambda>(file_path, data). fold (second_pass_class (package data)) (classes data)) fd s = r"
    by (simp add: split_def)
qed

lemma classify_no_relationships: "classify index_data = no_relationships"
  by (simp add: classify_def second_pass_placeholder first_pass_relationships)

lemma association_loop_take:
  "association_loop pc es n = take (max_associations - n) (filter (both_processed pc) es)"
  by (induction pc es n rule: association_loop.induct) (auto simp: Suc_diff_le take_Cons')

lemma association_loop_subset: "set (association_loop pc es n) \<subseteq> set es"
  unfolding association_loop_take by (auto dest: in_set_takeD)

lemma kind_edges_kind: "e \<in> set (kind_edges k pc es) \<Longrightarrow> snd (snd e) = k"
  by (auto simp: kind_edges_def)

lemma kind_edges_from: "(s, t, k') \<in> set (kind_edges k pc es) \<Longrightarrow> (s, t) \<in> set es"
  by (auto simp: kind_edges_def)

lemma filter_kind_edges:
  "filter (\<lambda>e. snd (snd e) = k') (kind_edges k pc es) = (if k = k' then kind_edges k pc es else [])"
  by (auto simp: kind_edges_def filter_map comp_def split_def filter_empty_conv)

lemma track_inheritance_edges:
  "set (inheritance (track_inheritance p c parent interfaces r)) =
     set (inheritance r)
     \<union> (if parent \<noteq> [] \<and> parent \<notin> {''Object'', ''java.lang.Object''}
        then {(c, qualify p parent)} else {})
     \<union> (\<lambda>i. (c, qualify p i)) ` set interfaces"
proof -
  have "set (inheritance (fold (\<lambda>i. add_inheritance (c, qualify p i)) is s)) =
        set (inheritance s) \<union> (\<lambda>i. (c, qualify p i)) ` set is" for "is" s
    by (induction "is" arbitrary: s) auto
  then show ?thesis
    by (auto simp: track_inheritance_def Let_def)
qed


lemma class_diagram_no_edges: "graph_edges (class_diagram index_data) = []"
  by (simp add: class_diagram_def Let_def second_pass_placeholder first_pass_relationships
        no_relationships_def kind_edges_def)

lemma order_index_nodes:
  "graph_nodes (class_diagram order_index) =
     [(''app.Order'', ''Order''), (''app.Customer'', ''Customer''), (''legend'', ''Legend'')]"
  by (simp add: class_diagram_def Let_def first_pass_def order_index_def first_pass_class_def
        full_class_name_of_def startswith_any_def startswith_def excluded_patterns_def
        set_add_def)

text \<open>
  Claim C2, as amended. The index holds the names of the classes only: the fields of
  \<^verbatim>\<open>Order\<close> are not in it, and the classifier runs the field rule over an empty
  placeholder list of attributes. For every index the composition, aggregation and
  association sets are empty; for the index of \<^verbatim>\<open>Order\<close> and \<^verbatim>\<open>Customer\<close> classification
  emits no edge of any kind, and the class diagram has the two class nodes, the
  legend and no edge.
\<close>

theorem field_edges_need_attribute_data:
  "composition (classify index_data) = [] \<and>
   aggregation (classify index_data) = [] \<and>
   association (classify index_data) = [] \<and>
   classify order_index = no_relationships \<and>
   class_diagram order_index =
     \<lparr>graph_nodes =
        [(''app.Order'', ''Order''), (''app.Customer'', ''Customer''), (''legend'', ''Legend'')],
      graph_edges = []\<rparr>"
proof -
  have "classify idx = no_relationships" for idx
    by (rule classify_no_relationships)
  moreover have "class_diagram order_index =
     \<lparr>graph_nodes =
        [(''app.Order'', ''Order''), (''app.Customer'', ''Customer''), (''legend'', ''Legend'')],
      graph_edges = []\<rparr>"
    by (rule class_graph.equality) (simp_all add: order_index_nodes class_diagram_no_edges)
  ultimately show ?thesis
    by (simp add: no_relationships_def)
qed

text \<open>
  Claim C2 as stated fails: for the index of \<^verbatim>\<open>Order\<close> and \<^verbatim>\<open>Customer\<close> none of the three
  expected edges is emitted.
\<close>

theorem order_scenario_edges_absent:
  "(''app.Order'', ''app.Customer'') \<notin> set (association (classify order_index)) \<and>
   (''app.Order'', ''app.OrderId'') \<notin> set (composition (classify order_index)) \<and>
   (''app.Order'', ''app.Item'') \<notin> set (aggregation (classify order_index))"
  by (simp add: classify_no_relationships no_relationships_def)

text \<open>
  Claim C3, as amended. The rule that tracks inheritance adds, for a parent class
  that is not empty and is neither \<^verbatim>\<open>Object\<close> nor \<^verbatim>\<open>java.lang.Object\<close> (the name as
  written is tested), the edge from the class to the resolved parent, and for each
  interface the edge from the class to the resolved interface; given \<^verbatim>\<open>Derived\<close> with
  parent \<^verbatim>\<open>Base\<close> and interface \<^verbatim>\<open>Flag\<close> it yields exactly the two edges. The index
  records neither parents nor interfaces, and the classifier gives the rule the empty
  parent class and no interfaces for every class: for every index the inheritance set
  is empty and the class diagram has no inheritance edge.
\<close>

theorem inheritance_needs_parent_data:
  "inheritance (classify index_data) = [] \<and>
   filter (\<lambda>e. snd (snd e) = Inheritance) (graph_edges (class_diagram index_data)) = [] \<and>
   set (inheritance (track_inheritance package_name c parent_class interfaces r)) =
     set (inheritance r)
     \<union> (if parent_class \<noteq> [] \<and> parent_class \<notin> {''Object'', ''java.lang.Object''}
        then {(c, qualify package_name parent_class)} else {})
     \<union> (\<lambda>i. (c, qualify package_name i)) ` set interfaces \<and>
   inheritance (track_inheritance [] ''Derived'' ''Base'' [''Flag''] no_relationships) =
     [(''Derived'', ''Base''), (''Derived'', ''Flag'')]"
proof -
  have "inheritance (classify index_data) = []"
    by (simp add: classify_def second_pass_inheritance first_pass_relationships
          no_relationships_def)
  moreover have "inheritance (track_inheritance [] ''Derived'' ''Base'' [''Flag''] no_relationships) =
     [(''Derived'', ''Base''), (''Derived'', ''Flag'')]"
    by (simp add: track_inheritance_def qualify_def set_add_def no_relationships_def)
  ultimately show ?thesis
    by (simp only: class_diagram_no_edges track_inheritance_edges filter.simps simp_thms)
qed

text \<open>
  Claim C3 as stated fails: for the index of \<^verbatim>\<open>Base\<close> and \<^verbatim>\<open>Derived\<close> neither of the two
  expected inheritance edges is emitted.
\<close>

theorem derived_scenario_edges_absent:
  "(''Derived'', ''Base'') \<notin> set (inheritance (classify derived_index)) \<and>
   (''Derived'', ''Flag'') \<notin> set (inheritance (classify derived_index))"
  by (simp add: classify_no_relationships no_relationships_def)

text \<open>
  Claim C5. The loop that adds the association edges stops when its counter reaches
  the cap of 30: it adds the first 30 of the association pairs whose two ends are
  processed classes, in the order of the iteration, and none of the rest. The class
  diagram of every index has at most 30 association edges.
\<close>

theorem association_cap:
  "length (association_loop processed es 0) \<le> max_associations \<and>
   association_loop processed es 0 = take max_associations (filter (both_processed processed) es) \<and>
   length (filter (\<lambda>e. snd (snd e) = Association) (graph_edges (class_diagram index_data)))
     \<le> max_associations \<and>
   max_associations = 30"
proof -
  have a: "association_loop pc xs 0 = take max_associations (filter (both_processed pc) xs)"
    for pc xs by (simp add: association_loop_take)
  have b: "length (association_loop pc xs 0) \<le> max_associations" for pc xs
    unfolding a by simp
  have "filter (\<lambda>e. snd (snd e) = Association) (graph_edges (class_diagram index_data)) =
        map (\<lambda>(s, t). (s, t, Association))
          (association_loop (processed_classes (first_pass index_data))
             (association (classify index_data)) 0)"
    by (simp add: class_diagram_def Let_def filter_kind_edges classify_def filter_map comp_def
          split_def)
  then show ?thesis
    using a b by (simp add: max_associations_def)
qed

text \<open>
  Claim C7. None of the four relationship sets after classification has an edge from
  a class to itself, and neither has the class diagram. The field rule compares the
  class with the target before it adds an edge; the inheritance set stays empty.
\<close>

theorem no_self_edges:
  "(x, x) \<notin> set (inheritance (classify index_data)) \<and>
   (x, x) \<notin> set (composition (classify index_data)) \<and>
   (x, x) \<notin> set (aggregation (classify index_data)) \<and>
   (x, x) \<notin> set (association (classify index_data)) \<and>
   (x, x, k) \<notin> set (graph_edges (class_diagram index_data))"
proof -
  let ?r = "classify index_data"
  have inh: "inheritance ?r = []"
    by (simp add: classify_def second_pass_inheritance first_pass_relationships
          no_relationships_def)
  have "no_self_fields x (class_relationships (first_pass index_data))"
    by (simp add: first_pass_relationships no_relationships_def no_self_fields_def)
  then have fields: "no_self_fields x ?r"
    unfolding classify_def by (rule second_pass_no_self)
  have "(x, x, k) \<notin> set (graph_edges (class_diagram index_data))"
  proof
    assume "(x, x, k) \<in> set (graph_edges (class_diagram index_data))"
    then have "(x, x) \<in> set (inheritance ?r) \<or> (x, x) \<in> set (composition ?r)
        \<or> (x, x) \<in> set (aggregation ?r) \<or> (x, x) \<in> set (association ?r)"
      using association_loop_subset [of "processed_classes (first_pass index_data)" "association ?r" 0]
      by (auto simp: class_diagram_def Let_def classify_def dest: kind_edges_from)
    with inh fields show False by (simp add: no_self_fields_def)
  qed
  with inh fields show ?thesis by (simp add: no_self_fields_def)
qed

section \<open>The sequence diagram\<close>

lemma sequence_call_step_skipped: "call_skipped call \<Longrightarrow> sequence_call_step call st = st"
  by (simp add: sequence_call_step_def)


lemma not_skipped_methods:
  "\<not> call_skipped call \<Longrightarrow>
     lower (caller_method call) \<notin> set utility_methods \<and>
     lower (callee_method call) \<notin> set utility_methods"
  by (auto simp: call_skipped_def)



lemma update_set:
  "distinct (map fst al) \<Longrightarrow> e \<in> set (AList.update k v al) \<Longrightarrow>
     e = (k, v) \<or> e \<in> set al \<and> fst e \<noteq> k"
  by (induction al) (auto split: if_splits intro: rev_image_eqI)

lemma sequence_call_step_retained:
  assumes "retained_ok st"
  shows "retained_ok (sequence_call_step call st)"
proof (cases "call_skipped call")
  case True
  with assms show ?thesis by (simp add: sequence_call_step_skipped)
next
  case False
  define rel where "rel = (caller_class call, callee_class call)"
  define new where "new = (caller_method call, callee_method call)"
  define cbr0 where "cbr0 = calls_by_relation st"
  define cbr1 where "cbr1 = (if map_of cbr0 rel = None then AList.update rel [] cbr0 else cbr0)"
  define old where "old = the (map_of cbr1 rel)"
  have new_ok: "pair_ok new"
    using not_skipped_methods [OF False] by (simp add: pair_ok_def new_def)
  have d0: "distinct (map fst cbr0)"
    and ok0: "\<forall>e \<in> set cbr0. snd e \<noteq> [] \<and> (\<forall>m \<in> set (snd e). pair_ok m)"
    using assms by (simp_all add: retained_ok_def cbr0_def)
  have d1: "distinct (map fst cbr1)"
    using d0 by (simp add: cbr1_def AList.distinct_update)
  have in1: "e = (rel, []) \<or> e \<in> set cbr0" if "e \<in> set cbr1" for e
    using that by (auto simp: cbr1_def dest: update_set [OF d0] split: if_splits)
  have "map_of cbr1 rel \<noteq> None"
    by (simp add: cbr1_def AList.update_conv')
  then have "map_of cbr1 rel = Some old"
    by (auto simp: old_def)
  then have "(rel, old) \<in> set cbr1"
    by (rule map_of_SomeD)
  then have old_ok: "\<forall>m \<in> set old. pair_ok m"
    using in1 [of "(rel, old)"] ok0 by auto
  have cbr: "calls_by_relation (sequence_call_step call st) =
             AList.update rel (old @ [new]) cbr1"
    using False
    by (simp add: sequence_call_step_def Let_def rel_def new_def cbr0_def cbr1_def old_def)
  have "snd e \<noteq> [] \<and> (\<forall>m \<in> set (snd e). pair_ok m)"
    if "e \<in> set (AList.update rel (old @ [new]) cbr1)" for e
  proof -
    from that have "e = (rel, old @ [new]) \<or> e \<in> set cbr1 \<and> fst e \<noteq> rel"
      by (rule update_set [OF d1])
    then show ?thesis
    proof
      assume "e = (rel, old @ [new])"
      with old_ok new_ok show ?thesis by auto
    next
      assume e: "e \<in> set cbr1 \<and> fst e \<noteq> rel"
      then have "e \<in> set cbr0"
        using in1 [of e] by auto
      with ok0 show ?thesis by simp
    qed
  qed
  moreover have "distinct (map fst (AList.update rel (old @ [new]) cbr1))"
    using d1 by (rule AList.distinct_update)
  ultimately show ?thesis
    by (simp add: retained_ok_def cbr)
qed

lemma sequence_first_pass_retained: "retained_ok (sequence_first_pass index_data)"
  unfolding sequence_first_pass_def
proof (rule fold_invariant [where P = retained_ok])
  show "retained_ok \<lparr>participants = [], calls_by_relation = []\<rparr>"
    by (simp add: retained_ok_def)
next
  fix fd :: "string \<times> file_data" and s :: sequence_pass
  assume s: "retained_ok s"
  have "retained_ok (fold sequence_call_step (call_graph (snd fd)) s)"
    by (rule fold_invariant [where P = retained_ok])
       (simp_all add: s sequence_call_step_retained)
  then show "retained_ok
     ((\<lambda>(file_path, file_data). fold sequence_call_step (call_graph file_data)) fd s)"
    by (simp add: split_def)
qed

lemma filter_key_distinct:
  "distinct (map fst al) \<Longrightarrow> map_of al k = Some v \<Longrightarrow> filter (\<lambda>e. fst e = k) al = [(k, v)]"
proof (induction al)
  case Nil
  then show ?case by simp
next
  case (Cons e al)
  show ?case
  proof (cases "fst e = k")
    case True
    have "fst e \<notin> fst ` set al"
      using Cons.prems(1) by simp
    with True have "filter (\<lambda>e. fst e = k) al = []"
      by (auto simp: filter_empty_conv intro: rev_image_eqI)
    with True Cons.prems(2) show ?thesis by (cases e) simp
  next
    case False
    with Cons show ?thesis by (cases e) auto
  qed
qed

lemma edge_label_many: "2 \<le> length calls \<Longrightarrow> edge_label calls = str_nat (length calls) @ '' calls''"
  by (cases calls rule: list.exhaust; simp add: edge_label_def important_calls_def)
     (auto simp: take_Cons' split: list.splits nat.splits)

lemma edge_label_cases:
  "edge_label calls =
     (if length calls = 1 then fst (hd calls) @ '' -> '' @ snd (hd calls)
      else str_nat (length calls) @ '' calls'')"
proof (cases calls)
  case Nil
  then show ?thesis by (simp add: edge_label_def important_calls_def)
next
  case (Cons c cs)
  show ?thesis
  proof (cases cs)
    case Nil
    with Cons show ?thesis by (simp add: edge_label_def important_calls_def)
  next
    case (Cons d ds)
    have "2 \<le> length calls"
      using \<open>calls = c # cs\<close> Cons by simp
    then show ?thesis
      by (simp add: edge_label_many)
  qed
qed

lemma edge_label_one: "edge_label [c] = fst c @ '' -> '' @ snd c"
  by (simp add: edge_label_def important_calls_def)

lemma important_calls_take: "important_calls calls = take 3 calls"
  by (simp add: important_calls_def min_def)

lemma sequence_edges_pair:
  "filter (\<lambda>e. fst e = caller \<and> fst (snd e) = callee) (sequence_edges cbr) =
     (if caller = callee then []
      else map (\<lambda>(rel, calls). (fst rel, snd rel, edge_label calls))
             (filter (\<lambda>e. fst e = (caller, callee)) cbr))"
  by (induction cbr) (auto simp: sequence_edges_def)


lemma two_calls_pass:
  "sequence_first_pass two_calls_index =
     \<lparr>participants = [''A'', ''B''],
      calls_by_relation = [((''A'', ''B''), [(''run'', ''go''), (''run'', ''halt'')])]\<rparr>"
  by code_simp


lemma two_calls_edges:
  "sequence_graph_edges (sequence_diagram two_calls_index) = [(''A'', ''B'', ''2 calls'')]"
  by code_simp


lemma run_go_not_utility:
  "lower ''run'' \<notin> set utility_methods" "lower ''go'' \<notin> set utility_methods"
  by code_simp+

lemma str_nat_2: "str_nat (Suc (Suc 0)) = ''2''"
  by code_simp

text \<open>
  The lookup tests the name in lower case against the set as it is written: a member
  of the set that has a capital letter, such as \<^verbatim>\<open>toString\<close>, is not matched by it.
\<close>

lemma to_string_call_kept:
  "callee_method to_string_call \<in> set utility_methods \<and> \<not> call_skipped to_string_call"
  by code_simp

text \<open>
  Claim C8, as amended. A pair of distinct classes with retained calls has exactly one
  edge. When the pair has two or more retained calls, the label of the edge is the
  number of all its retained calls followed by \<^verbatim>\<open>calls\<close>, whatever these calls are: no
  call is shown in it. A label of the form \<^verbatim>\<open>caller -> callee\<close> is that of a pair with
  exactly one retained call. (The first three calls are selected in the source, but
  only the length of the selection is read.)
\<close>

theorem pair_edge_label:
  assumes "map_of (calls_by_relation (sequence_first_pass index_data)) (caller, callee) = Some calls"
    and "caller \<noteq> callee"
  shows "calls \<noteq> [] \<and>
         filter (\<lambda>e. fst e = caller \<and> fst (snd e) = callee)
           (sequence_graph_edges (sequence_diagram index_data)) =
           [(caller, callee,
             if length calls = 1 then fst (hd calls) @ '' -> '' @ snd (hd calls)
             else str_nat (length calls) @ '' calls'')]"
proof -
  let ?cbr = "calls_by_relation (sequence_first_pass index_data)"
  have inv: "retained_ok (sequence_first_pass index_data)"
    by (rule sequence_first_pass_retained)
  have "((caller, callee), calls) \<in> set ?cbr"
    using assms(1) by (rule map_of_SomeD)
  with inv have "calls \<noteq> []"
    by (auto simp: retained_ok_def)
  moreover have "distinct (map fst ?cbr)"
    using inv by (simp add: retained_ok_def)
  then have "filter (\<lambda>e. fst e = (caller, callee)) ?cbr = [((caller, callee), calls)]"
    using assms(1) by (rule filter_key_distinct)
  then have "filter (\<lambda>e. fst e = caller \<and> fst (snd e) = callee) (sequence_edges ?cbr) =
             [(caller, callee, edge_label calls)]"
    using assms(2) by (simp add: sequence_edges_pair)
  ultimately show ?thesis
    by (simp add: sequence_diagram_def Let_def edge_label_cases)
qed

text \<open>The theorem at the index with the three calls, of which two are retained.\<close>

theorem pair_edge_label_witness:
  "map_of (calls_by_relation (sequence_first_pass two_calls_index)) (''A'', ''B'') =
     Some [(''run'', ''go''), (''run'', ''halt'')] \<and>
   ''A'' \<noteq> ''B'' \<and>
   filter (\<lambda>e. fst e = ''A'' \<and> fst (snd e) = ''B'')
     (sequence_graph_edges (sequence_diagram two_calls_index)) = [(''A'', ''B'', ''2 calls'')]"
proof -
  have h: "map_of (calls_by_relation (sequence_first_pass two_calls_index)) (''A'', ''B'') =
     Some [(''run'', ''go''), (''run'', ''halt'')]"
    by (simp add: two_calls_pass)
  have n: "''A'' \<noteq> ''B''"
    by simp
  have l: "str_nat (length [(''run'', ''go''), (''run'', ''halt'')]) = ''2''"
    by (simp add: str_nat_2)
  show ?thesis
    using pair_edge_label [OF h n] h n unfolding l by simp
qed

text \<open>
  Claim C8 as stated fails: the pair of \<^verbatim>\<open>A\<close> and \<^verbatim>\<open>B\<close> has the two retained calls
  \<^verbatim>\<open>run -> go\<close> and \<^verbatim>\<open>run -> halt\<close>, both among the first three, and the label of its edge
  is \<^verbatim>\<open>2 calls\<close>: it is neither of the two calls, and none of their method names is a
  part of it.
\<close>

theorem two_calls_label_is_count:
  "map_of (calls_by_relation (sequence_first_pass two_calls_index)) (''A'', ''B'') =
     Some [(''run'', ''go''), (''run'', ''halt'')] \<and>
   important_calls [(''run'', ''go''), (''run'', ''halt'')] =
     [(''run'', ''go''), (''run'', ''halt'')] \<and>
   sequence_graph_edges (sequence_diagram two_calls_index) = [(''A'', ''B'', ''2 calls'')] \<and>
   ''2 calls'' \<noteq> ''run -> go'' \<and> ''2 calls'' \<noteq> ''run -> halt'' \<and>
   \<not> sublist ''run'' ''2 calls'' \<and> \<not> sublist ''go'' ''2 calls'' \<and>
   \<not> sublist ''halt'' ''2 calls''"
proof -
  have "\<not> sublist ''run'' ''2 calls''" "\<not> sublist ''go'' ''2 calls''"
       "\<not> sublist ''halt'' ''2 calls''"
    by (simp_all add: sublist_Cons_right)
  then show ?thesis
    by (simp add: two_calls_pass two_calls_edges important_calls_def)
qed




end
